theory Spec2Isabelle
  imports Main "HOL-Library.Word" "HOL-Library.Monad_Syntax"
begin

unbundle bit_operations_syntax

section \<open>Data model\<close>

text \<open>
  The C types of \<^verbatim>\<open>q15_axpy_challenge.c\<close>: \<^verbatim>\<open>int16_t\<close> is a 16-bit word and
  \<^verbatim>\<open>int32_t\<close> (and \<^verbatim>\<open>int\<close>) a 32-bit word, both read in two's complement by \<open>sint\<close>;
  \<^verbatim>\<open>size_t\<close> is a 64-bit word (RV64). Memory is a store of \<^verbatim>\<open>int16_t\<close> cells, and a
  pointer \<^verbatim>\<open>int16_t *p\<close> is the number of its cell, so that \<^verbatim>\<open>p[i]\<close> is the cell
  \<open>p + i\<close>. The kernels receive three pointers into one store: buffers that overlap
  are expressible, as they are in C.
\<close>

type_synonym int16_t = "16 word"
type_synonym int32_t = "32 word"
type_synonym size_t = "64 word"
type_synonym ptr = nat
type_synonym heap = "ptr \<Rightarrow> int16_t"

section \<open>The saturation primitive\<close>

text \<open>
  \<^verbatim>\<open>static inline int16_t sat_q15(int32_t v)\<close>: two signed comparisons, then the
  narrowing cast \<^verbatim>\<open>(int16_t)v\<close>, which keeps the low 16 bits.
\<close>

definition sat_q15 :: "int32_t \<Rightarrow> int16_t" where
  "sat_q15 v =
     (if 32767 <s v then 32767
      else if v <s - 32768 then - 32768
      else ucast v)"

section \<open>The scalar reference kernel\<close>

text \<open>
  The right-hand side of line 31,
  \<^verbatim>\<open>(int32_t)a[i] + (int32_t)alpha * (int32_t)b[i]\<close>: the three operands are
  sign-extended to 32 bits, and the product and the sum are 32-bit operations.
\<close>

definition accumulator :: "int16_t \<Rightarrow> int16_t \<Rightarrow> int16_t \<Rightarrow> int32_t" where
  "accumulator ai alpha bi = scast ai + scast alpha * scast bi"

text \<open>
  The loop \<^verbatim>\<open>for (int i = 0; i < n; i++)\<close> of \<^verbatim>\<open>q15_axpy_ref\<close>, from the value
  \<open>i\<close> of its counter. The counter and the bound are the values of the C \<^verbatim>\<open>int\<close>s;
  \<open>i < n\<close> holds before every increment, so \<^verbatim>\<open>i++\<close> stays below \<open>2 ^ 31\<close>.
\<close>

function q15_axpy_ref_loop ::
  "ptr \<Rightarrow> ptr \<Rightarrow> ptr \<Rightarrow> int \<Rightarrow> int16_t \<Rightarrow> int \<Rightarrow> heap \<Rightarrow> heap" where
  "q15_axpy_ref_loop a b y n alpha i h =
     (if i < n then
        let result = accumulator (h (a + nat i)) alpha (h (b + nat i))
        in q15_axpy_ref_loop a b y n alpha (i + 1) (h(y + nat i := sat_q15 result))
      else h)"
  by pat_completeness auto
termination
  by (relation "measure (\<lambda>(a, b, y, n, alpha, i, h). nat (n - i))") auto

declare q15_axpy_ref_loop.simps [simp del]

definition q15_axpy_ref :: "ptr \<Rightarrow> ptr \<Rightarrow> ptr \<Rightarrow> int32_t \<Rightarrow> int16_t \<Rightarrow> heap \<Rightarrow> heap" where
  "q15_axpy_ref a b y n alpha h = q15_axpy_ref_loop a b y (sint n) alpha 0 h"

section \<open>The RVV kernel\<close>

subsection \<open>The vector intrinsics\<close>

text \<open>
  The intrinsics of \<^verbatim>\<open>riscv_vector.h\<close> belong to the compiler, not to the repository.
  They are modelled after the chunk steps the specification lists (load the two slices,
  widen and multiply by the scalar, widen-add, saturating narrow, store) with the
  semantics the RISC-V vector extension gives the instructions. A vector value is the
  list of its active elements; every operation works on the first \<open>vl\<close> of them.
\<close>

text \<open>
  Modelled from the spec: \<^verbatim>\<open>__riscv_vsetvl_e16m1\<close>. The hardware chooses the chunk
  length; the kernel takes that choice as its parameter \<open>vsetvl\<close>. Every choice the
  vector extension allows is positive and at most the requested length when that is
  positive, and that is all \<open>vsetvl_ok\<close> asks.
\<close>

definition vsetvl_ok :: "(size_t \<Rightarrow> size_t) \<Rightarrow> bool" where
  "vsetvl_ok vsetvl \<longleftrightarrow> (\<forall>avl. avl \<noteq> 0 \<longrightarrow> vsetvl avl \<noteq> 0 \<and> vsetvl avl \<le> avl)"

text \<open>
  Modelled from the spec: the usual choice, the minimum of the remaining count and the
  platform's width \<open>vlmax\<close>.
\<close>

definition vsetvl_vlmax :: "size_t \<Rightarrow> size_t \<Rightarrow> size_t" where
  "vsetvl_vlmax vlmax avl = min avl vlmax"

text \<open>Modelled from the spec: \<^verbatim>\<open>__riscv_vle16_v_i16m1\<close>, a unit-stride load.\<close>

definition vle16_v_i16m1 :: "heap \<Rightarrow> ptr \<Rightarrow> size_t \<Rightarrow> int16_t list" where
  "vle16_v_i16m1 h p vl = map (\<lambda>i. h (p + i)) [0..<unat vl]"

text \<open>
  Modelled from the spec: \<^verbatim>\<open>__riscv_vwmul_vx_i32m2\<close>, the signed widening product
  of each element with a scalar.
\<close>

definition vwmul_vx_i32m2 :: "int16_t list \<Rightarrow> int16_t \<Rightarrow> size_t \<Rightarrow> int32_t list" where
  "vwmul_vx_i32m2 vs2 rs1 vl = map (\<lambda>x. scast x * scast rs1) (take (unat vl) vs2)"

text \<open>
  Modelled from the spec: \<^verbatim>\<open>__riscv_vwadd_wv_i32m2\<close>, a wide element plus a
  sign-extended narrow one.
\<close>

definition vwadd_wv_i32m2 :: "int32_t list \<Rightarrow> int16_t list \<Rightarrow> size_t \<Rightarrow> int32_t list" where
  "vwadd_wv_i32m2 vs2 vs1 vl = map (\<lambda>(w, x). w + scast x) (take (unat vl) (zip vs2 vs1))"

text \<open>
  Modelled from the spec: the fixed-point rounding modes \<^verbatim>\<open>__RISCV_VXRM_*\<close> and the
  rounding increment of a right shift by \<open>d\<close>; a shift by 0 drops no bit and rounds
  nothing in any mode.
\<close>

datatype vxrm = RISCV_VXRM_RNU | RISCV_VXRM_RNE | RISCV_VXRM_RDN | RISCV_VXRM_ROD

fun round_incr :: "vxrm \<Rightarrow> int32_t \<Rightarrow> nat \<Rightarrow> int32_t" where
  "round_incr RISCV_VXRM_RNU v d = (if d = 0 then 0 else of_bool (bit v (d - 1)))"
| "round_incr RISCV_VXRM_RNE v d =
     (if d = 0 then 0 else of_bool (bit v (d - 1) \<and> (take_bit (d - 1) v \<noteq> 0 \<or> bit v d)))"
| "round_incr RISCV_VXRM_RDN v d = 0"
| "round_incr RISCV_VXRM_ROD v d =
     (if d = 0 then 0 else of_bool (\<not> bit v d \<and> take_bit d v \<noteq> 0))"

definition roundoff_signed :: "vxrm \<Rightarrow> int32_t \<Rightarrow> nat \<Rightarrow> int32_t" where
  "roundoff_signed rm v d = signed_drop_bit d v + round_incr rm v d"

definition clip_i16 :: "int32_t \<Rightarrow> int16_t" where
  "clip_i16 v =
     (if 32767 <s v then 32767
      else if v <s - 32768 then - 32768
      else ucast v)"

text \<open>
  Modelled from the spec: \<^verbatim>\<open>__riscv_vnclip_wx_i16m1\<close>, the narrowing clip: shift
  right by the low five bits of the scalar with rounding, then saturate to 16 bits.
\<close>

definition vnclip_wx_i16m1 :: "int32_t list \<Rightarrow> size_t \<Rightarrow> vxrm \<Rightarrow> size_t \<Rightarrow> int16_t list" where
  "vnclip_wx_i16m1 vs2 rs1 rm vl =
     map (\<lambda>v. clip_i16 (roundoff_signed rm v (unat (take_bit 5 rs1)))) (take (unat vl) vs2)"

text \<open>Modelled from the spec: \<^verbatim>\<open>__riscv_vse16_v_i16m1\<close>, a unit-stride store.\<close>

definition vse16_v_i16m1 :: "heap \<Rightarrow> ptr \<Rightarrow> int16_t list \<Rightarrow> size_t \<Rightarrow> heap" where
  "vse16_v_i16m1 h p vs3 vl = (\<lambda>q. if p \<le> q \<and> q < p + unat vl then vs3 ! (q - p) else h q)"

subsection \<open>The chunked loop\<close>

text \<open>
  \<^verbatim>\<open>while (remaining > 0)\<close> of \<^verbatim>\<open>q15_axpy_rvv\<close>. Nothing in the code bounds
  \<open>vl\<close>: with a \<open>vsetvl\<close> that answers 0 the loop never ends, which is the value
  \<open>None\<close>. \<^verbatim>\<open>remaining -= vl\<close> is a \<^verbatim>\<open>size_t\<close> subtraction and wraps.
\<close>

partial_function (option) q15_axpy_rvv_loop ::
  "(size_t \<Rightarrow> size_t) \<Rightarrow> ptr \<Rightarrow> ptr \<Rightarrow> ptr \<Rightarrow> size_t \<Rightarrow> int16_t \<Rightarrow> heap \<Rightarrow> heap option" where
  "q15_axpy_rvv_loop vsetvl a b y remaining alpha h =
     (if 0 < remaining then
        let vl = vsetvl remaining;
            va = vle16_v_i16m1 h a vl;
            vb = vle16_v_i16m1 h b vl;
            prod = vwmul_vx_i32m2 vb alpha vl;
            sum = vwadd_wv_i32m2 prod va vl;
            vy = vnclip_wx_i16m1 sum 0 RISCV_VXRM_RNU vl;
            h' = vse16_v_i16m1 h y vy vl
        in q15_axpy_rvv_loop vsetvl (a + unat vl) (b + unat vl) (y + unat vl)
             (remaining - vl) alpha h'
      else Some h)"

text \<open>\<^verbatim>\<open>size_t remaining = (size_t)n\<close> sign-extends the \<^verbatim>\<open>int\<close>.\<close>

definition q15_axpy_rvv ::
  "(size_t \<Rightarrow> size_t) \<Rightarrow> ptr \<Rightarrow> ptr \<Rightarrow> ptr \<Rightarrow> int32_t \<Rightarrow> int16_t \<Rightarrow> heap \<Rightarrow> heap option" where
  "q15_axpy_rvv vsetvl a b y n alpha h = q15_axpy_rvv_loop vsetvl a b y (scast n) alpha h"

text \<open>
  The \<^verbatim>\<open>#else\<close> branch, the build for a target without the vector extension: the
  scalar kernel, which always returns.
\<close>

definition q15_axpy_rvv_fallback ::
  "ptr \<Rightarrow> ptr \<Rightarrow> ptr \<Rightarrow> int32_t \<Rightarrow> int16_t \<Rightarrow> heap \<Rightarrow> heap option" where
  "q15_axpy_rvv_fallback a b y n alpha h = Some (q15_axpy_ref a b y n alpha h)"

section \<open>The equivalence checker\<close>

text \<open>
  The loop of \<^verbatim>\<open>arrays_match\<close> from the value \<open>i\<close> of its counter, on the pair of
  \<^verbatim>\<open>match\<close> and \<^verbatim>\<open>*max_diff\<close>. The difference, its negation and both comparisons are
  32-bit signed operations.
\<close>

function arrays_match_loop ::
  "heap \<Rightarrow> ptr \<Rightarrow> ptr \<Rightarrow> int \<Rightarrow> int \<Rightarrow> int32_t \<times> int32_t \<Rightarrow> int32_t \<times> int32_t" where
  "arrays_match_loop h ref test n i (match, max_diff) =
     (if i < n then
        let diff = scast (h (ref + nat i)) - scast (h (test + nat i));
            diff = (if diff <s 0 then - diff else diff);
            max_diff = (if max_diff <s diff then diff else max_diff);
            match = (if diff \<noteq> 0 then 0 else match)
        in arrays_match_loop h ref test n (i + 1) (match, max_diff)
      else (match, max_diff))"
  by pat_completeness auto
termination
  by (relation "measure (\<lambda>(h, ref, test, n, i, s). nat (n - i))") auto

declare arrays_match_loop.simps [simp del]

text \<open>The result is the pair of the returned \<^verbatim>\<open>match\<close> and the final \<^verbatim>\<open>*max_diff\<close>.\<close>

definition arrays_match :: "heap \<Rightarrow> ptr \<Rightarrow> ptr \<Rightarrow> int32_t \<Rightarrow> int32_t \<times> int32_t" where
  "arrays_match h ref test n = arrays_match_loop h ref test (sint n) 0 (1, 0)"

section \<open>The edge-case battery\<close>

text \<open>
  The four locals \<^verbatim>\<open>a, b, y_ref, y_rvv\<close> of \<^verbatim>\<open>run_edge_tests\<close> are four cells of the
  store; the kernels receive their addresses.
\<close>

definition addr_a :: ptr where "addr_a = 0"
definition addr_b :: ptr where "addr_b = 1"
definition addr_y_ref :: ptr where "addr_y_ref = 2"
definition addr_y_rvv :: ptr where "addr_y_rvv = 3"

text \<open>
  One case of the battery: the two assignments and the two kernel calls with \<open>n = 1\<close>.
  It yields the two outputs and the store. \<open>krvv\<close> is the build of \<^verbatim>\<open>q15_axpy_rvv\<close>
  in use.
\<close>

definition edge_case ::
  "(ptr \<Rightarrow> ptr \<Rightarrow> ptr \<Rightarrow> int32_t \<Rightarrow> int16_t \<Rightarrow> heap \<Rightarrow> heap option) \<Rightarrow>
   int16_t \<Rightarrow> int16_t \<Rightarrow> int16_t \<Rightarrow> heap \<Rightarrow> (int16_t \<times> int16_t \<times> heap) option" where
  "edge_case krvv av bv alpha h =
     do {
       let h = h(addr_a := av);
       let h = h(addr_b := bv);
       let h = q15_axpy_ref addr_a addr_b addr_y_ref 1 alpha h;
       h \<leftarrow> krvv addr_a addr_b addr_y_rvv 1 alpha h;
       Some (h addr_y_ref, h addr_y_rvv, h)
     }"

text \<open>\<^verbatim>\<open>run_edge_tests\<close>: the four cases in the order of the source, and the flag.\<close>

definition run_edge_tests ::
  "(ptr \<Rightarrow> ptr \<Rightarrow> ptr \<Rightarrow> int32_t \<Rightarrow> int16_t \<Rightarrow> heap \<Rightarrow> heap option) \<Rightarrow> heap \<Rightarrow> int32_t option" where
  "run_edge_tests krvv h =
     do {
       let pass = 1;
       (y_ref, y_rvv, h) \<leftarrow> edge_case krvv 32767 1 1 h;
       let pass = (if y_ref \<noteq> 32767 \<or> y_rvv \<noteq> 32767 then 0 else pass);
       (y_ref, y_rvv, h) \<leftarrow> edge_case krvv (- 32768) 1 (- 1) h;
       let pass = (if y_ref \<noteq> - 32768 \<or> y_rvv \<noteq> - 32768 then 0 else pass);
       (y_ref, y_rvv, h) \<leftarrow> edge_case krvv 0 32767 32767 h;
       let pass = (if y_ref \<noteq> 32767 \<or> y_rvv \<noteq> 32767 then 0 else pass);
       (y_ref, y_rvv, h) \<leftarrow> edge_case krvv 100 200 5 h;
       let pass = (if y_ref \<noteq> 1100 \<or> y_rvv \<noteq> 1100 then 0 else pass);
       Some pass
     }"

section \<open>The contract, in the specification's words\<close>

text \<open>
  The store after a call that writes \<open>saturate (widen a[i] + widen alpha * widen b[i])\<close>
  to \<open>y[i]\<close> for each \<open>i\<close> in \<open>[0, n)\<close>, from the inputs as they were at the call, and
  leaves every other cell alone. The arithmetic is that of the integers.
\<close>

definition saturate :: "int \<Rightarrow> int" where
  "saturate v = (if 32767 < v then 32767 else if v < - 32768 then - 32768 else v)"

definition axpy_spec :: "ptr \<Rightarrow> ptr \<Rightarrow> ptr \<Rightarrow> nat \<Rightarrow> int16_t \<Rightarrow> heap \<Rightarrow> heap" where
  "axpy_spec a b y n alpha h =
     (\<lambda>q. if y \<le> q \<and> q < y + n
          then word_of_int (saturate (sint (h (a + (q - y))) + sint alpha * sint (h (b + (q - y)))))
          else h q)"

text \<open>
  A call is well formed when no write clobbers an input that is still to be read: the
  write to \<open>y[i]\<close> hits no \<open>a[j]\<close> or \<open>b[j]\<close> with \<open>i < j\<close>. Output buffers disjoint
  from both inputs satisfy this, and so does an output buffer that is one of the inputs.
\<close>

definition reads_unclobbered :: "ptr \<Rightarrow> ptr \<Rightarrow> ptr \<Rightarrow> nat \<Rightarrow> bool" where
  "reads_unclobbered a b y n \<longleftrightarrow>
     (\<forall>j \<in> {0..<n}. \<forall>i \<in> {0..<j}. y + i \<noteq> a + j \<and> y + i \<noteq> b + j)"

text \<open>
  The largest absolute difference of two sequences over the indices \<open>[i, n)\<close>, in the
  integers; over no index at all it is 0.
\<close>

definition max_abs_diff :: "heap \<Rightarrow> ptr \<Rightarrow> ptr \<Rightarrow> nat \<Rightarrow> nat \<Rightarrow> int" where
  "max_abs_diff h ref test i n =
     Max (insert 0 ((\<lambda>j. \<bar>sint (h (ref + j)) - sint (h (test + j))\<bar>) ` {i..<n}))"

text \<open>
  Lines 83 to 85 of \<^verbatim>\<open>arrays_match\<close> as one expression, for the proofs about its loop.
\<close>

definition abs_diff32 :: "int16_t \<Rightarrow> int16_t \<Rightarrow> int32_t" where
  "abs_diff32 x y = (let diff = scast x - scast y in if diff <s 0 then - diff else diff)"

text \<open>
  A store for concrete runs: \<open>a\<close> in the cells from 32, \<open>b\<close> in the cells from 40,
  every other cell 0. The first three elements saturate high, stay exact and saturate
  low for \<open>alpha = 3\<close>; the fourth pair is the widest difference two samples can have.
\<close>

definition sample_heap :: heap where
  "sample_heap = (\<lambda>p. 0)(32 := 30000, 33 := 1000, 34 := - 30000, 35 := - 32768,
                           40 := 20000, 41 := 7, 42 := - 20000, 43 := 32767)"

section \<open>Word arithmetic of the kernels\<close>

lemma sint_scast_16_32: "sint (scast (x :: int16_t) :: int32_t) = sint x"
  by (rule sint_up_scast) (simp add: is_up)

lemma sint16_bounds: "- 32768 \<le> sint (x :: int16_t)" "sint (x :: int16_t) \<le> 32767"
  using sint_ge [of x] sint_lt [of x] by simp_all

lemma q15_product_bounds:
  fixes x y :: int
  assumes "- 32768 \<le> x" "x \<le> 32767" "- 32768 \<le> y" "y \<le> 32767"
  shows "- 1073709056 \<le> x * y" and "x * y \<le> 1073741824"
proof -
  have "\<bar>x\<bar> \<le> 32768" "\<bar>y\<bar> \<le> 32768" using assms by simp_all
  then have "\<bar>x\<bar> * \<bar>y\<bar> \<le> 32768 * 32768"
    by (intro mult_mono) simp_all
  then have ub: "\<bar>x * y\<bar> \<le> 1073741824" by (simp add: abs_mult)
  then show "x * y \<le> 1073741824" by simp
  show "- 1073709056 \<le> x * y"
  proof (cases "0 \<le> x \<longleftrightarrow> 0 \<le> y")
    case True
    then have "0 \<le> x * y" by (auto simp: zero_le_mult_iff)
    then show ?thesis by simp
  next
    case False
    then consider "0 \<le> x" "y < 0" | "x < 0" "0 \<le> y" by auto
    then show ?thesis
    proof cases
      case 1
      then have "x * (- y) \<le> 32767 * 32768"
        using assms by (intro mult_mono) simp_all
      then show ?thesis by simp
    next
      case 2
      then have "(- x) * y \<le> 32768 * 32767"
        using assms by (intro mult_mono) simp_all
      then show ?thesis by simp
    qed
  qed
qed

lemma sint_accumulator:
  "sint (accumulator ai alpha bi) = sint ai + sint alpha * sint bi"
proof -
  note bs = sint16_bounds [of ai] sint16_bounds [of alpha] sint16_bounds [of bi]
  have p: "- 1073709056 \<le> sint alpha * sint bi" "sint alpha * sint bi \<le> 1073741824"
    using q15_product_bounds [of "sint alpha" "sint bi"] bs by simp_all
  have "sint (scast alpha * scast bi :: int32_t) = sint alpha * sint bi"
    using p by (simp add: sint_word_ariths sint_scast_16_32 signed_take_bit_int_eq_self)
  moreover have "- 2147483648 \<le> sint ai + sint alpha * sint bi"
    "sint ai + sint alpha * sint bi < 2147483648"
    using p bs by simp_all
  ultimately show ?thesis
    by (simp add: accumulator_def sint_word_ariths sint_scast_16_32 signed_take_bit_int_eq_self)
qed

lemma sat_q15_sint:
  "sint (sat_q15 v) = saturate (sint v)"
proof -
  have "sint (ucast v :: int16_t) = sint v"
    if "- 32768 \<le> sint v" and "sint v \<le> 32767"
  proof -
    have "sint (ucast v :: int16_t) = signed_take_bit 15 (sint v)"
      by transfer (simp add: signed_take_bit_take_bit)
    also have "\<dots> = sint v"
      using that by (simp add: signed_take_bit_int_eq_self)
    finally show ?thesis .
  qed
  then show ?thesis
    by (simp add: sat_q15_def saturate_def word_sless_alt)
qed

lemma sat_q15_accumulator:
  "sat_q15 (accumulator ai alpha bi) = word_of_int (saturate (sint ai + sint alpha * sint bi))"
proof -
  have "sat_q15 (accumulator ai alpha bi) = word_of_int (sint (sat_q15 (accumulator ai alpha bi)))"
    by simp
  then show ?thesis
    by (simp only: sat_q15_sint sint_accumulator)
qed

lemma clip_i16_unshifted:
  "clip_i16 (roundoff_signed rm v 0) = sat_q15 v"
  by (cases rm) (simp_all add: clip_i16_def roundoff_signed_def sat_q15_def)


section \<open>Both kernels meet the contract\<close>

lemma reads_unclobbered_advance:
  assumes "reads_unclobbered a b y n" and "c \<le> n"
  shows "reads_unclobbered (a + c) (b + c) (y + c) (n - c)"
  unfolding reads_unclobbered_def
proof (intro ballI)
  fix j i assume j: "j \<in> {0..<n - c}" and i: "i \<in> {0..<j}"
  then have "c + j \<in> {0..<n}" "c + i \<in> {0..<c + j}" by auto
  with assms(1) have "y + (c + i) \<noteq> a + (c + j) \<and> y + (c + i) \<noteq> b + (c + j)"
    unfolding reads_unclobbered_def by blast
  then show "y + c + i \<noteq> a + c + j \<and> y + c + i \<noteq> b + c + j"
    by (simp add: add.assoc)
qed

lemma axpy_spec_in:
  "j < n \<Longrightarrow> axpy_spec a b y n alpha h (y + j)
     = word_of_int (saturate (sint (h (a + j)) + sint alpha * sint (h (b + j))))"
  by (simp add: axpy_spec_def)

lemma axpy_spec_out:
  "q < y \<or> y + n \<le> q \<Longrightarrow> axpy_spec a b y n alpha h q = h q"
  by (auto simp: axpy_spec_def)

lemma axpy_spec_chunk:
  assumes "reads_unclobbered a b y n" and "c \<le> n"
  shows "axpy_spec (a + c) (b + c) (y + c) (n - c) alpha (axpy_spec a b y c alpha h)
         = axpy_spec a b y n alpha h"
proof (rule ext)
  fix q
  let ?h' = "axpy_spec a b y c alpha h"
  consider (below) "q < y" | (written) i where "i < c" "q = y + i"
    | (pending) j where "c \<le> j" "j < n" "q = y + j" | (above) "y + n \<le> q"
  proof -
    have "q < y \<or> (q - y < c \<and> q = y + (q - y)) \<or> (c \<le> q - y \<and> q - y < n \<and> q = y + (q - y))
          \<or> y + n \<le> q"
      by linarith
    then show ?thesis using that by blast
  qed
  then show "axpy_spec (a + c) (b + c) (y + c) (n - c) alpha ?h' q = axpy_spec a b y n alpha h q"
  proof cases
    case below
    then have "axpy_spec (a + c) (b + c) (y + c) (n - c) alpha ?h' q = ?h' q"
      by (intro axpy_spec_out) simp
    also have "\<dots> = h q" using below by (intro axpy_spec_out) simp
    also have "\<dots> = axpy_spec a b y n alpha h q"
      using below by (intro axpy_spec_out [symmetric]) simp
    finally show ?thesis .
  next
    case above
    then have "axpy_spec (a + c) (b + c) (y + c) (n - c) alpha ?h' q = ?h' q"
      using assms(2) by (intro axpy_spec_out) simp
    also have "\<dots> = h q" using above assms(2) by (intro axpy_spec_out) simp
    also have "\<dots> = axpy_spec a b y n alpha h q"
      using above by (intro axpy_spec_out [symmetric]) simp
    finally show ?thesis .
  next
    case written
    then have "axpy_spec (a + c) (b + c) (y + c) (n - c) alpha ?h' q = ?h' q"
      by (intro axpy_spec_out) simp
    also have "\<dots> = axpy_spec a b y n alpha h q"
      using written assms(2) by (simp add: axpy_spec_in)
    finally show ?thesis .
  next
    case pending
    have keep: "?h' (p + j) = h (p + j)" if "p = a \<or> p = b" for p
    proof (rule axpy_spec_out, rule ccontr)
      assume "\<not> (p + j < y \<or> y + c \<le> p + j)"
      then have "(p + j) - y < c" "y + ((p + j) - y) = p + j" by linarith+
      moreover from this have "(p + j) - y \<in> {0..<j}" "j \<in> {0..<n}" using pending by auto
      with assms(1) have "y + ((p + j) - y) \<noteq> a + j \<and> y + ((p + j) - y) \<noteq> b + j"
        unfolding reads_unclobbered_def by blast
      ultimately show False using that by auto
    qed
    have q: "q = (y + c) + (j - c)" and jc: "j - c < n - c" using pending by linarith+
    have ptr: "a + c + (j - c) = a + j" "b + c + (j - c) = b + j" using pending by simp_all
    have "axpy_spec (a + c) (b + c) (y + c) (n - c) alpha ?h' q
          = word_of_int (saturate (sint (?h' (a + j)) + sint alpha * sint (?h' (b + j))))"
      unfolding q by (simp only: axpy_spec_in [OF jc] ptr)
    also have "\<dots> = word_of_int (saturate (sint (h (a + j)) + sint alpha * sint (h (b + j))))"
      by (simp only: keep [of a] keep [of b] simp_thms)
    also have "\<dots> = axpy_spec a b y n alpha h q"
      using pending by (simp add: axpy_spec_in)
    finally show ?thesis .
  qed
qed

lemma axpy_spec_0: "axpy_spec a b y 0 alpha h = h"
  by (rule ext) (auto simp: axpy_spec_def)

lemma axpy_spec_1:
  "axpy_spec a b y (Suc 0) alpha h = h(y := sat_q15 (accumulator (h a) alpha (h b)))"
proof (rule ext)
  fix q
  show "axpy_spec a b y (Suc 0) alpha h q
             = (h(y := sat_q15 (accumulator (h a) alpha (h b)))) q"
  proof (cases "q = y")
    case True
    then show ?thesis
      using axpy_spec_in [of 0 "Suc 0" a b y alpha h] by (simp add: sat_q15_accumulator)
  next
    case False
    then have "q < y \<or> y + Suc 0 \<le> q" by linarith
    then show ?thesis using False by (simp add: axpy_spec_out)
  qed
qed

lemma q15_axpy_ref_loop_spec:
  assumes "0 \<le> i"
    and "reads_unclobbered (a + nat i) (b + nat i) (y + nat i) (nat n - nat i)"
  shows "q15_axpy_ref_loop a b y n alpha i h
         = axpy_spec (a + nat i) (b + nat i) (y + nat i) (nat n - nat i) alpha h"
  using assms
proof (induction a b y n alpha i h rule: q15_axpy_ref_loop.induct)
  case (1 a b y n alpha i h)
  show ?case
  proof (cases "i < n")
    case False
    then have "nat n - nat i = 0" by simp
    with False show ?thesis
      by (subst q15_axpy_ref_loop.simps) (simp add: axpy_spec_0)
  next
    case True
    let ?h' = "h(y + nat i := sat_q15 (accumulator (h (a + nat i)) alpha (h (b + nat i))))"
    have suc: "nat (i + 1) = nat i + 1" "nat n - nat (i + 1) = (nat n - nat i) - 1"
      using "1.prems"(1) by simp_all
    have one: "1 \<le> nat n - nat i" using True "1.prems"(1) by simp
    have adv: "reads_unclobbered (a + nat (i + 1)) (b + nat (i + 1)) (y + nat (i + 1))
                 (nat n - nat (i + 1))"
      using reads_unclobbered_advance [OF "1.prems"(2) one] by (simp add: suc add.assoc)
    have "q15_axpy_ref_loop a b y n alpha i h = q15_axpy_ref_loop a b y n alpha (i + 1) ?h'"
      using True by (subst q15_axpy_ref_loop.simps) (simp add: Let_def)
    also have "\<dots> = axpy_spec (a + nat (i + 1)) (b + nat (i + 1)) (y + nat (i + 1))
                       (nat n - nat (i + 1)) alpha ?h'"
    proof (rule "1.IH" [OF True refl _ adv])
      show "0 \<le> i + 1" using "1.prems"(1) by simp
    qed
    also have "?h' = axpy_spec (a + nat i) (b + nat i) (y + nat i) 1 alpha h"
      by (simp add: axpy_spec_1)
    also have "axpy_spec (a + nat (i + 1)) (b + nat (i + 1)) (y + nat (i + 1))
                 (nat n - nat (i + 1)) alpha (axpy_spec (a + nat i) (b + nat i) (y + nat i) 1 alpha h)
               = axpy_spec (a + nat i) (b + nat i) (y + nat i) (nat n - nat i) alpha h"
      using axpy_spec_chunk [OF "1.prems"(2) one, of alpha h] by (simp add: suc add.assoc)
    finally show ?thesis .
  qed
qed

lemma q15_axpy_ref_eq_spec:
  assumes "reads_unclobbered a b y (nat (sint n))"
  shows "q15_axpy_ref a b y n alpha h = axpy_spec a b y (nat (sint n)) alpha h"
  using q15_axpy_ref_loop_spec [of 0 a b y "sint n" alpha h] assms
  by (simp add: q15_axpy_ref_def)

lemma rvv_lane:
  assumes "j < unat vl"
  shows "vnclip_wx_i16m1
           (vwadd_wv_i32m2 (vwmul_vx_i32m2 (vle16_v_i16m1 h b vl) alpha vl)
              (vle16_v_i16m1 h a vl) vl)
           0 RISCV_VXRM_RNU vl ! j
         = sat_q15 (accumulator (h (a + j)) alpha (h (b + j)))"
proof -
  have "accumulator (h (a + j)) alpha (h (b + j))
        = scast (h (b + j)) * scast alpha + scast (h (a + j))"
    by (simp add: accumulator_def mult.commute add.commute)
  then show ?thesis
    using assms
    by (simp add: vnclip_wx_i16m1_def vwadd_wv_i32m2_def vwmul_vx_i32m2_def
        vle16_v_i16m1_def clip_i16_unshifted)
qed

lemma rvv_chunk:
  "vse16_v_i16m1 h y
     (vnclip_wx_i16m1
        (vwadd_wv_i32m2 (vwmul_vx_i32m2 (vle16_v_i16m1 h b vl) alpha vl) (vle16_v_i16m1 h a vl) vl)
        0 RISCV_VXRM_RNU vl) vl
   = axpy_spec a b y (unat vl) alpha h"
proof (rule ext)
  fix q
  show "vse16_v_i16m1 h y
     (vnclip_wx_i16m1
        (vwadd_wv_i32m2 (vwmul_vx_i32m2 (vle16_v_i16m1 h b vl) alpha vl) (vle16_v_i16m1 h a vl) vl)
        0 RISCV_VXRM_RNU vl) vl q
   = axpy_spec a b y (unat vl) alpha h q"
  proof (cases "y \<le> q \<and> q < y + unat vl")
    case True
    then have j: "q - y < unat vl" and q: "q = y + (q - y)" by auto
    have "axpy_spec a b y (unat vl) alpha h q
          = sat_q15 (accumulator (h (a + (q - y))) alpha (h (b + (q - y))))"
      using axpy_spec_in [OF j, of a b y alpha h] q by (simp add: sat_q15_accumulator)
    then show ?thesis
      using True by (simp add: vse16_v_i16m1_def rvv_lane [OF j])
  next
    case False
    then have "q < y \<or> y + unat vl \<le> q" by linarith
    then have "axpy_spec a b y (unat vl) alpha h q = h q" by (rule axpy_spec_out)
    then show ?thesis
      unfolding vse16_v_i16m1_def by (simp only: False if_False)
  qed
qed

lemma q15_axpy_rvv_loop_spec:
  assumes "vsetvl_ok vsetvl"
  shows "reads_unclobbered a b y (unat remaining) \<Longrightarrow>
         q15_axpy_rvv_loop vsetvl a b y remaining alpha h
         = Some (axpy_spec a b y (unat remaining) alpha h)"
proof (induction "unat remaining" arbitrary: a b y remaining h rule: less_induct)
  case less
  show ?case
  proof (cases "remaining = 0")
    case True
    then show ?thesis
      by (subst q15_axpy_rvv_loop.simps) (simp add: axpy_spec_0)
  next
    case False
    define vl where "vl = vsetvl remaining"
    have vl: "vl \<noteq> 0" "vl \<le> remaining"
      using assms False by (simp_all add: vsetvl_ok_def vl_def)
    then have le: "unat vl \<le> unat remaining" and pos: "0 < unat vl"
      by (simp_all add: word_le_nat_alt unat_gt_0)
    have sub: "unat (remaining - vl) = unat remaining - unat vl"
      using vl(2) by (simp add: unat_sub)
    have smaller: "unat (remaining - vl) < unat remaining"
      using sub le pos False by (simp add: unat_gt_0)
    have adv: "reads_unclobbered (a + unat vl) (b + unat vl) (y + unat vl) (unat (remaining - vl))"
      using reads_unclobbered_advance [OF less.prems le] by (simp add: sub)
    have "q15_axpy_rvv_loop vsetvl a b y remaining alpha h
          = q15_axpy_rvv_loop vsetvl (a + unat vl) (b + unat vl) (y + unat vl) (remaining - vl)
              alpha (axpy_spec a b y (unat vl) alpha h)"
      using False
      by (subst q15_axpy_rvv_loop.simps) (simp add: Let_def rvv_chunk vl_def word_greater_zero_iff)
    also have "\<dots> = Some (axpy_spec (a + unat vl) (b + unat vl) (y + unat vl)
                         (unat (remaining - vl)) alpha (axpy_spec a b y (unat vl) alpha h))"
      by (rule less.hyps [OF smaller adv])
    also have "\<dots> = Some (axpy_spec a b y (unat remaining) alpha h)"
      using axpy_spec_chunk [OF less.prems le, of alpha h] by (simp add: sub)
    finally show ?thesis .
  qed
qed

lemma unat_scast_nonneg:
  assumes "0 \<le> sint (n :: int32_t)"
  shows "unat (scast n :: size_t) = nat (sint n)"
proof -
  have "sint n < 2 ^ 31" using sint_lt [of n] by simp
  then have "sint n < 2 ^ 64" by simp
  then have tb: "take_bit 64 (sint n) = sint n"
    using assms by (simp only: take_bit_int_eq_self)
  have "uint (scast n :: size_t) = uint (word_of_int (sint n) :: size_t)"
    by (simp only: scast_eq)
  also have "\<dots> = take_bit 64 (sint n)"
    by (simp only: uint_word_of_int_eq len_bit0 len_num1) simp
  finally have "uint (scast n :: size_t) = sint n" using tb by simp
  then show ?thesis by (simp only: unat_eq_nat_uint)
qed

lemma q15_axpy_rvv_eq_spec:
  assumes "vsetvl_ok vsetvl" "0 \<le> sint n" "reads_unclobbered a b y (nat (sint n))"
  shows "q15_axpy_rvv vsetvl a b y n alpha h = Some (axpy_spec a b y (nat (sint n)) alpha h)"
  using q15_axpy_rvv_loop_spec [OF assms(1), of a b y "scast n" alpha h] assms(2,3)
  by (simp add: q15_axpy_rvv_def unat_scast_nonneg)


lemma vsetvl_vlmax_ok: "vlmax \<noteq> 0 \<Longrightarrow> vsetvl_ok (vsetvl_vlmax vlmax)"
  by (auto simp: vsetvl_ok_def vsetvl_vlmax_def min_def)

section \<open>The equivalence checker computes the true maximum\<close>

lemma sint_eqI: "sint v = sint w \<Longrightarrow> v = w" for v w :: "'a::len word"
  by (rule signed_word_eqI)

lemma sint_neg32: "sint (- w) = signed_take_bit 31 (- sint w)" for w :: int32_t
  by (simp add: sint_word_ariths)

lemma sint_abs_diff32: "sint (abs_diff32 x y) = \<bar>sint x - sint y\<bar>"
proof -
  note bs = sint16_bounds [of x] sint16_bounds [of y]
  have d: "sint (scast x - scast y :: int32_t) = sint x - sint y"
    using bs by (simp add: sint_word_ariths sint_scast_16_32 signed_take_bit_int_eq_self)
  have "sint (- (scast x - scast y) :: int32_t) = signed_take_bit 31 (- sint (scast x - scast y :: int32_t))"
    by (rule sint_neg32)
  also have "\<dots> = - (sint x - sint y)"
    unfolding d using bs by (simp add: signed_take_bit_int_eq_self)
  finally have "sint (- (scast x - scast y) :: int32_t) = - (sint x - sint y)" .
  then show ?thesis
    using d by (simp add: abs_diff32_def Let_def word_sless_alt)
qed

lemma abs_diff32_commute: "abs_diff32 x y = abs_diff32 y x"
  by (rule sint_eqI) (simp add: sint_abs_diff32 abs_minus_commute)

lemma abs_diff32_eq_0: "abs_diff32 x y = 0 \<longleftrightarrow> x = y"
proof -
  have "abs_diff32 x y = 0 \<longleftrightarrow> sint (abs_diff32 x y) = 0"
    by (simp add: signed_eq_0_iff)
  also have "\<dots> \<longleftrightarrow> sint x = sint y" by (simp add: sint_abs_diff32)
  also have "\<dots> \<longleftrightarrow> x = y" by (auto intro: sint_eqI)
  finally show ?thesis .
qed

lemma arrays_match_loop_step:
  "arrays_match_loop h ref test n i (m, d) =
     (if i < n then
        arrays_match_loop h ref test n (i + 1)
          (if abs_diff32 (h (ref + nat i)) (h (test + nat i)) \<noteq> 0 then 0 else m,
           if d <s abs_diff32 (h (ref + nat i)) (h (test + nat i))
           then abs_diff32 (h (ref + nat i)) (h (test + nat i)) else d)
      else (m, d))"
  by (subst arrays_match_loop.simps) (simp add: Let_def abs_diff32_def)

lemma arrays_match_loop_commute:
  "arrays_match_loop h ref test n i s = arrays_match_loop h test ref n i s"
proof (induction "nat (n - i)" arbitrary: i s)
  case 0
  then have "\<not> i < n" by simp
  then show ?case
    by (cases s) (simp add: arrays_match_loop_step)
next
  case (Suc k)
  then have lt: "i < n" and k: "k = nat (n - (i + 1))" by simp_all
  obtain m d where s: "s = (m, d)" by (cases s)
  show ?case
    unfolding s
    by (subst arrays_match_loop_step, subst (2) arrays_match_loop_step)
       (simp add: lt Suc.hyps(1) [OF k] abs_diff32_commute [of "h (test + nat i)"])
qed

lemma max_abs_diff_empty: "n \<le> i \<Longrightarrow> max_abs_diff h ref test i n = 0"
  by (simp add: max_abs_diff_def)

lemma max_abs_diff_step:
  assumes "i < n"
  shows "max_abs_diff h ref test i n
         = max \<bar>sint (h (ref + i)) - sint (h (test + i))\<bar> (max_abs_diff h ref test (Suc i) n)"
proof -
  let ?f = "\<lambda>j. \<bar>sint (h (ref + j)) - sint (h (test + j))\<bar>"
  have "{i..<n} = insert i {Suc i..<n}" using assms by auto
  then have "insert 0 (?f ` {i..<n}) = insert (?f i) (insert 0 (?f ` {Suc i..<n}))"
    by auto
  then show ?thesis
    unfolding max_abs_diff_def by (simp only: Max_insert finite_insert finite_imageI finite_atLeastLessThan insert_not_empty not_False_eq_True)
qed

lemma max_abs_diff_nonneg: "0 \<le> max_abs_diff h ref test i n"
  by (simp add: max_abs_diff_def)

lemma max_abs_diff_eq_0:
  "max_abs_diff h ref test i n = 0 \<longleftrightarrow> (\<forall>j \<in> {i..<n}. h (ref + j) = h (test + j))"
proof -
  let ?f = "\<lambda>j. \<bar>sint (h (ref + j)) - sint (h (test + j))\<bar>"
  have "max_abs_diff h ref test i n \<le> 0 \<longleftrightarrow> (\<forall>j \<in> {i..<n}. ?f j \<le> 0)"
    unfolding max_abs_diff_def by (subst Max_le_iff) auto
  also have "\<dots> \<longleftrightarrow> (\<forall>j \<in> {i..<n}. h (ref + j) = h (test + j))"
    by (auto intro: sint_eqI)
  finally show ?thesis using max_abs_diff_nonneg [of h ref test i n] by linarith
qed

lemma arrays_match_loop_result:
  assumes "0 \<le> i"
  shows "arrays_match_loop h ref test n i (m, d) = (m', d') \<Longrightarrow> 0 \<le> sint d \<Longrightarrow>
         sint d' = max (sint d) (max_abs_diff h ref test (nat i) (nat n))
         \<and> m' = (if \<forall>j \<in> {nat i..<nat n}. h (ref + j) = h (test + j) then m else 0)"
  using assms
proof (induction "nat (n - i)" arbitrary: i m d)
  case 0
  then have "\<not> i < n" "nat n \<le> nat i" by simp_all
  with 0 show ?case
    by (simp add: arrays_match_loop_step max_abs_diff_empty max_abs_diff_nonneg)
next
  case (Suc k)
  then have lt: "i < n" and k: "k = nat (n - (i + 1))" by simp_all
  let ?x = "abs_diff32 (h (ref + nat i)) (h (test + nat i))"
  let ?m = "if ?x \<noteq> 0 then 0 else m"
  let ?d = "if d <s ?x then ?x else d"
  have idx: "nat (i + 1) = Suc (nat i)" "nat i < nat n" using Suc.prems lt by simp_all
  have "arrays_match_loop h ref test n (i + 1) (?m, ?d) = (m', d')"
    using Suc.prems(1) lt by (subst (asm) arrays_match_loop_step) simp
  moreover have dn: "sint ?d = max (sint d) \<bar>sint (h (ref + nat i)) - sint (h (test + nat i))\<bar>"
    by (simp add: word_sless_alt sint_abs_diff32 max_def)
  moreover have "0 \<le> sint ?d" unfolding dn by (simp add: le_max_iff_disj)
  moreover have "0 \<le> i + 1" using Suc.prems by simp
  ultimately have ih: "sint d' = max (sint ?d) (max_abs_diff h ref test (Suc (nat i)) (nat n))"
    "m' = (if \<forall>j \<in> {Suc (nat i)..<nat n}. h (ref + j) = h (test + j) then ?m else 0)"
    using Suc.hyps(1) [OF k, of "?m" "?d"] by (simp_all only: idx)
  have "sint d' = max (sint d) (max_abs_diff h ref test (nat i) (nat n))"
    using ih(1) dn by (simp only: max_abs_diff_step [OF idx(2)] max.assoc)
  moreover have "{nat i..<nat n} = insert (nat i) {Suc (nat i)..<nat n}"
    using idx(2) by auto
  then have "m' = (if \<forall>j \<in> {nat i..<nat n}. h (ref + j) = h (test + j) then m else 0)"
    using ih(2) by (simp add: abs_diff32_eq_0)
  ultimately show ?case by simp
qed

section \<open>Single-element calls and the battery\<close>

lemma q15_axpy_ref_single:
  "q15_axpy_ref a b y 1 alpha h = h(y := sat_q15 (accumulator (h a) alpha (h b)))"
proof -
  have "reads_unclobbered a b y (nat (sint (1 :: int32_t)))"
    by (simp add: reads_unclobbered_def)
  then show ?thesis
    using q15_axpy_ref_eq_spec [of a b y 1 alpha h] by (simp add: axpy_spec_1)
qed

lemma q15_axpy_rvv_single:
  assumes "vsetvl_ok vsetvl"
  shows "q15_axpy_rvv vsetvl a b y 1 alpha h
         = Some (h(y := sat_q15 (accumulator (h a) alpha (h b))))"
proof -
  have "reads_unclobbered a b y (nat (sint (1 :: int32_t)))"
    by (simp add: reads_unclobbered_def)
  then show ?thesis
    using q15_axpy_rvv_eq_spec [OF assms, of 1 a b y alpha h] by (simp add: axpy_spec_1)
qed

lemma edge_case_result:
  assumes "\<And>a b y h. krvv a b y 1 alpha h = Some (h(y := sat_q15 (accumulator (h a) alpha (h b))))"
  shows "\<exists>h'. edge_case krvv av bv alpha h
              = Some (sat_q15 (accumulator av alpha bv), sat_q15 (accumulator av alpha bv), h')"
  by (simp add: edge_case_def assms q15_axpy_ref_single addr_a_def addr_b_def addr_y_ref_def
      addr_y_rvv_def)

lemma edge_values:
  "sat_q15 (accumulator 32767 1 1) = 32767"
  "sat_q15 (accumulator (- 32768) (- 1) 1) = - 32768"
  "sat_q15 (accumulator 0 32767 32767) = 32767"
  "sat_q15 (accumulator 100 5 200) = 1100"
  by (simp_all add: sat_q15_def accumulator_def word_sless_alt)

lemma run_edge_tests_iff:
  "run_edge_tests k h0 = Some 1 \<longleftrightarrow>
     (\<exists>h1 h2 h3 h4.
        edge_case k 32767 1 1 h0 = Some (32767, 32767, h1)
        \<and> edge_case k (- 32768) 1 (- 1) h1 = Some (- 32768, - 32768, h2)
        \<and> edge_case k 0 32767 32767 h2 = Some (32767, 32767, h3)
        \<and> edge_case k 100 200 5 h3 = Some (1100, 1100, h4))"
  unfolding run_edge_tests_def Let_def
  by (auto simp: bind_eq_Some_conv split: if_splits)

section \<open>An output that overlaps an input still to be read\<close>

text \<open>
  The contract needs \<open>reads_unclobbered\<close>. With \<open>y = a + 1\<close> the scalar kernel
  reads the \<open>a[1]\<close> it has just overwritten, while a two-element chunk has loaded it
  before the store, and the two kernels leave different values in \<open>y[1]\<close>.
\<close>

lemma overlapping_output_diverges:
  "q15_axpy_ref 32 40 33 2 1 sample_heap 34 = 32767
   \<and> map_option (\<lambda>h'. h' 34) (q15_axpy_rvv (vsetvl_vlmax 2) 32 40 33 2 1 sample_heap) = Some 1007
   \<and> \<not> reads_unclobbered 32 40 33 (nat (sint (2 :: int32_t)))"
proof -
  have "q15_axpy_ref 32 40 33 2 1 sample_heap 34 = 32767"
    by (simp add: q15_axpy_ref_def q15_axpy_ref_loop.simps Let_def sample_heap_def
        accumulator_def sat_q15_def word_sless_alt)
  moreover have "q15_axpy_rvv (vsetvl_vlmax 2) 32 40 33 2 1 sample_heap
        = Some (axpy_spec 32 40 33 2 1 sample_heap)"
    unfolding q15_axpy_rvv_def
    apply (subst q15_axpy_rvv_loop.simps)
    apply (simp add: Let_def rvv_chunk vsetvl_vlmax_def)
    apply (subst q15_axpy_rvv_loop.simps)
    apply simp
    done
  moreover have "axpy_spec 32 40 33 2 1 sample_heap 34 = 1007"
    by (simp add: axpy_spec_def sample_heap_def saturate_def)
  moreover have "\<not> reads_unclobbered 32 40 33 (nat (sint (2 :: int32_t)))"
    by (auto simp: reads_unclobbered_def)
  ultimately show ?thesis by simp
qed

section \<open>The claims\<close>

text \<open>
  Claim C1. For every length \<open>n \<ge> 0\<close>, every \<open>alpha\<close> and all inputs of a well-formed
  call, the RVV kernel returns, whatever chunk lengths \<open>vsetvl\<close> chooses (a final
  partial chunk included), and leaves the store the scalar kernel leaves: the outputs
  are identical element by element. So does the fallback build.
\<close>

theorem q15_axpy_rvv_matches_ref:
  assumes "0 \<le> sint n" and "vsetvl_ok vsetvl" and "reads_unclobbered a b y (nat (sint n))"
  shows "q15_axpy_rvv vsetvl a b y n alpha h = Some (q15_axpy_ref a b y n alpha h)
         \<and> q15_axpy_rvv_fallback a b y n alpha h = Some (q15_axpy_ref a b y n alpha h)"
  using assms by (simp add: q15_axpy_rvv_eq_spec q15_axpy_ref_eq_spec q15_axpy_rvv_fallback_def)

text \<open>
  C1 at five elements in chunks of 2, 2 and 1.
\<close>

theorem q15_axpy_rvv_matches_ref_witness:
  "0 \<le> sint (5 :: int32_t) \<and> vsetvl_ok (vsetvl_vlmax 2)
   \<and> reads_unclobbered 32 40 48 (nat (sint (5 :: int32_t)))
   \<and> q15_axpy_rvv (vsetvl_vlmax 2) 32 40 48 5 3 sample_heap = Some (q15_axpy_ref 32 40 48 5 3 sample_heap)
   \<and> q15_axpy_rvv_fallback 32 40 48 5 3 sample_heap = Some (q15_axpy_ref 32 40 48 5 3 sample_heap)"
proof -
  have n: "0 \<le> sint (5 :: int32_t)" by simp
  have v: "vsetvl_ok (vsetvl_vlmax 2)" by (rule vsetvl_vlmax_ok) simp
  have r: "reads_unclobbered 32 40 48 (nat (sint (5 :: int32_t)))"
    by (auto simp: reads_unclobbered_def)
  show ?thesis
    using n v r q15_axpy_rvv_matches_ref [OF n v r, of 3 sample_heap] by simp
qed

text \<open>
  Claim C2. For every length \<open>n \<ge> 0\<close> of a well-formed call the scalar kernel writes
  to each \<open>y[i]\<close> with \<open>i\<close> in \<open>[0, n)\<close> the saturation of the 32-bit value
  \<open>widen a[i] + widen alpha * widen b[i]\<close>, which is the saturation of the same
  expression in the integers; it writes no other cell, and with \<open>n = 0\<close> it writes
  nothing.
\<close>

theorem q15_axpy_ref_writes:
  assumes "0 \<le> sint n" and "reads_unclobbered a b y (nat (sint n))"
  shows "(\<forall>i < nat (sint n).
            q15_axpy_ref a b y n alpha h (y + i)
              = sat_q15 (scast (h (a + i)) + scast alpha * scast (h (b + i)))
          \<and> sint (q15_axpy_ref a b y n alpha h (y + i))
              = saturate (sint (h (a + i)) + sint alpha * sint (h (b + i))))
         \<and> (\<forall>q. q < y \<or> y + nat (sint n) \<le> q \<longrightarrow> q15_axpy_ref a b y n alpha h q = h q)
         \<and> (n = 0 \<longrightarrow> q15_axpy_ref a b y n alpha h = h)"
proof (intro conjI allI impI)
  fix i assume i: "i < nat (sint n)"
  have out: "q15_axpy_ref a b y n alpha h (y + i)
             = sat_q15 (accumulator (h (a + i)) alpha (h (b + i)))"
    using assms(2) i by (simp add: q15_axpy_ref_eq_spec axpy_spec_in sat_q15_accumulator)
  then show "q15_axpy_ref a b y n alpha h (y + i)
             = sat_q15 (scast (h (a + i)) + scast alpha * scast (h (b + i)))"
    by (simp add: accumulator_def)
  show "sint (q15_axpy_ref a b y n alpha h (y + i))
        = saturate (sint (h (a + i)) + sint alpha * sint (h (b + i)))"
    by (simp only: out sat_q15_sint sint_accumulator)
next
  fix q assume "q < y \<or> y + nat (sint n) \<le> q"
  then show "q15_axpy_ref a b y n alpha h q = h q"
    using assms(2) by (simp add: q15_axpy_ref_eq_spec axpy_spec_out)
next
  assume "n = 0"
  then show "q15_axpy_ref a b y n alpha h = h"
    by (simp add: q15_axpy_ref_eq_spec axpy_spec_0 reads_unclobbered_def)
qed

text \<open>
  C2 at three elements: one saturates high, one is exact, one saturates low, and the
  cell after the output is untouched.
\<close>

theorem q15_axpy_ref_writes_witness:
  "0 \<le> sint (3 :: int32_t) \<and> reads_unclobbered 32 40 48 (nat (sint (3 :: int32_t)))
   \<and> q15_axpy_ref 32 40 48 3 3 sample_heap 48 = 32767
   \<and> q15_axpy_ref 32 40 48 3 3 sample_heap 49 = 1021
   \<and> q15_axpy_ref 32 40 48 3 3 sample_heap 50 = - 32768
   \<and> q15_axpy_ref 32 40 48 3 3 sample_heap 51 = sample_heap 51"
proof -
  have n: "0 \<le> sint (3 :: int32_t)" by simp
  have r: "reads_unclobbered 32 40 48 (nat (sint (3 :: int32_t)))"
    by (auto simp: reads_unclobbered_def)
  note w = q15_axpy_ref_writes [OF n r, of 3 sample_heap]
  note elem = w [THEN conjunct1, rule_format, THEN conjunct1]
  note frame = w [THEN conjunct2, THEN conjunct1, rule_format]
  have v: "sample_heap 32 = 30000" "sample_heap 33 = 1000" "sample_heap 34 = - 30000"
    "sample_heap 40 = 20000" "sample_heap 41 = 7" "sample_heap 42 = - 20000"
    by (simp_all add: sample_heap_def)
  have y0: "q15_axpy_ref 32 40 48 3 3 sample_heap 48 = 32767"
    using elem [of 0] by (simp add: v sat_q15_def word_sless_alt)
  have y1: "q15_axpy_ref 32 40 48 3 3 sample_heap 49 = 1021"
    using elem [of 1] by (simp add: v sat_q15_def word_sless_alt)
  have y2: "q15_axpy_ref 32 40 48 3 3 sample_heap 50 = - 32768"
    using elem [of 2] by (simp add: v sat_q15_def word_sless_alt)
  have y3: "q15_axpy_ref 32 40 48 3 3 sample_heap 51 = sample_heap 51"
    using frame [of 51] by simp
  from n r y0 y1 y2 y3 show ?thesis by (intro conjI)
qed

text \<open>
  Claim C3. \<^verbatim>\<open>sat_q15\<close> is defined on every 32-bit value \<open>v\<close>: it is 32767 above
  32767, -32768 below -32768, and otherwise has the value of \<open>v\<close> itself; the two
  extreme 32-bit values clamp like every other.
\<close>

theorem sat_q15_clamps:
  "sint (sat_q15 v) =
     (if 32767 < sint v then 32767 else if sint v < - 32768 then - 32768 else sint v)
   \<and> sat_q15 2147483647 = 32767 \<and> sat_q15 (- 2147483648) = - 32768"
  by (simp add: sat_q15_sint saturate_def) (simp add: sat_q15_def word_sless_alt)

text \<open>
  Claim C4. \<^verbatim>\<open>arrays_match\<close> leaves in \<^verbatim>\<open>*max_diff\<close> the maximum of
  \<open>|ref[i] - test[i]|\<close> over all \<open>i\<close> in \<open>[0, n)\<close>, the maximum of a set and so
  independent of any order; it returns 1 with a maximum of 0 exactly when the two
  sequences agree everywhere, and 0 with a positive maximum exactly when some element
  differs.
\<close>

theorem arrays_match_true_maximum:
  assumes "arrays_match h ref test n = (m, d)"
  shows "sint d = Max (insert 0 ((\<lambda>i. \<bar>sint (h (ref + i)) - sint (h (test + i))\<bar>)
                                   ` {0..<nat (sint n)}))
         \<and> (m = 1 \<and> d = 0 \<longleftrightarrow> (\<forall>i < nat (sint n). h (ref + i) = h (test + i)))
         \<and> (m = 0 \<and> d \<noteq> 0 \<longleftrightarrow> (\<exists>i < nat (sint n). h (ref + i) \<noteq> h (test + i)))"
proof -
  let ?same = "\<forall>j \<in> {nat 0..<nat (sint n)}. h (ref + j) = h (test + j)"
  have res: "sint d = max (sint (0 :: int32_t)) (max_abs_diff h ref test (nat 0) (nat (sint n)))"
    "m = (if ?same then 1 else 0)"
    using arrays_match_loop_result [of 0 h ref test "sint n" 1 0 m d] assms
    by (simp_all add: arrays_match_def)
  then have d: "sint d = max_abs_diff h ref test 0 (nat (sint n))"
    using max_abs_diff_nonneg [of h ref test 0 "nat (sint n)"] by simp
  have "d = 0 \<longleftrightarrow> sint d = 0"
    by (auto intro: sint_eqI)
  then have zero: "d = 0 \<longleftrightarrow> (\<forall>j \<in> {0..<nat (sint n)}. h (ref + j) = h (test + j))"
    using d max_abs_diff_eq_0 [of h ref test 0 "nat (sint n)"] by simp
  have m: "m = (if \<forall>j \<in> {0..<nat (sint n)}. h (ref + j) = h (test + j) then 1 else 0)"
    using res(2) by simp
  have "sint d = Max (insert 0 ((\<lambda>i. \<bar>sint (h (ref + i)) - sint (h (test + i))\<bar>)
                                   ` {0..<nat (sint n)}))"
    using d by (simp add: max_abs_diff_def)
  moreover have "m = 1 \<and> d = 0 \<longleftrightarrow> (\<forall>i < nat (sint n). h (ref + i) = h (test + i))"
    using m zero by auto
  moreover have "m = 0 \<and> d \<noteq> 0 \<longleftrightarrow> (\<exists>i < nat (sint n). h (ref + i) \<noteq> h (test + i))"
    using m zero by auto
  ultimately show ?thesis by (intro conjI)
qed

text \<open>
  C4 on four elements whose last pair is -32768 against 32767, and on a sequence
  against itself.
\<close>

theorem arrays_match_true_maximum_witness:
  "arrays_match sample_heap 32 40 4 = (0, 65535)
   \<and> sint (65535 :: int32_t)
       = Max (insert 0 ((\<lambda>i. \<bar>sint (sample_heap (32 + i)) - sint (sample_heap (40 + i))\<bar>)
                          ` {0..<nat (sint (4 :: int32_t))}))
   \<and> (\<exists>i < nat (sint (4 :: int32_t)). sample_heap (32 + i) \<noteq> sample_heap (40 + i))
   \<and> arrays_match sample_heap 32 32 4 = (1, 0)"
proof -
  have e: "arrays_match sample_heap 32 40 4 = (0, 65535)"
    by (simp add: arrays_match_def arrays_match_loop.simps Let_def sample_heap_def word_sless_alt)
  have s: "arrays_match sample_heap 32 32 4 = (1, 0)"
    by (simp add: arrays_match_def arrays_match_loop.simps Let_def word_sless_alt)
  show ?thesis
    using e s arrays_match_true_maximum [OF e] arrays_match_true_maximum [OF s] by simp
qed

text \<open>
  Claim C5. Every element written by the scalar kernel or by the RVV kernel, in the
  vector build and in the fallback build alike, is \<^verbatim>\<open>sat_q15\<close> of the accumulator.
  The accumulator holds the exact sum \<open>a[i] + alpha * b[i]\<close> of the inputs as they are,
  unclamped, a value that may lie far outside 16 bits; the element's value is the
  saturation of that sum, and it is the saturation that puts it in \<open>[-32768, 32767]\<close>.
\<close>

theorem outputs_saturated:
  assumes "0 \<le> sint n" and "vsetvl_ok vsetvl" and "reads_unclobbered a b y (nat (sint n))"
    and "i < nat (sint n)"
  shows "q15_axpy_ref a b y n alpha h (y + i)
           = sat_q15 (accumulator (h (a + i)) alpha (h (b + i)))
         \<and> map_option (\<lambda>h'. h' (y + i)) (q15_axpy_rvv vsetvl a b y n alpha h)
           = Some (sat_q15 (accumulator (h (a + i)) alpha (h (b + i))))
         \<and> map_option (\<lambda>h'. h' (y + i)) (q15_axpy_rvv_fallback a b y n alpha h)
           = Some (sat_q15 (accumulator (h (a + i)) alpha (h (b + i))))
         \<and> sint (accumulator (h (a + i)) alpha (h (b + i)))
           = sint (h (a + i)) + sint alpha * sint (h (b + i))
         \<and> sint (sat_q15 (accumulator (h (a + i)) alpha (h (b + i))))
           = saturate (sint (h (a + i)) + sint alpha * sint (h (b + i)))
         \<and> - 32768 \<le> saturate (sint (h (a + i)) + sint alpha * sint (h (b + i)))
         \<and> saturate (sint (h (a + i)) + sint alpha * sint (h (b + i))) \<le> 32767
         \<and> - 32768 \<le> sint (sat_q15 (accumulator (h (a + i)) alpha (h (b + i))))
         \<and> sint (sat_q15 (accumulator (h (a + i)) alpha (h (b + i)))) \<le> 32767"
proof -
  let ?acc = "accumulator (h (a + i)) alpha (h (b + i))"
  let ?exact = "sint (h (a + i)) + sint alpha * sint (h (b + i))"
  have spec: "axpy_spec a b y (nat (sint n)) alpha h (y + i) = sat_q15 ?acc"
    using assms(4) by (simp add: axpy_spec_in sat_q15_accumulator)
  have ref: "q15_axpy_ref a b y n alpha h (y + i) = sat_q15 ?acc"
    using assms(3) spec by (simp add: q15_axpy_ref_eq_spec)
  have rvv: "map_option (\<lambda>h'. h' (y + i)) (q15_axpy_rvv vsetvl a b y n alpha h)
             = Some (sat_q15 ?acc)"
    using assms(1-3) spec by (simp add: q15_axpy_rvv_eq_spec)
  have fallback: "map_option (\<lambda>h'. h' (y + i)) (q15_axpy_rvv_fallback a b y n alpha h)
                  = Some (sat_q15 ?acc)"
    using ref by (simp add: q15_axpy_rvv_fallback_def)
  have exact: "sint ?acc = ?exact"
    by (rule sint_accumulator)
  have val: "sint (sat_q15 ?acc) = saturate ?exact"
    by (simp only: sat_q15_sint exact)
  have lo: "- 32768 \<le> saturate ?exact" and hi: "saturate ?exact \<le> 32767"
    by (simp_all add: saturate_def)
  have lo': "- 32768 \<le> sint (sat_q15 ?acc)" and hi': "sint (sat_q15 ?acc) \<le> 32767"
    using lo hi by (simp_all only: val)
  from ref rvv fallback exact val lo hi lo' hi' show ?thesis
    by (intro conjI)
qed

text \<open>
  C5 where the accumulator is 90000, outside 16 bits, and the output of the scalar
  kernel and of both builds of the RVV kernel is 32767.
\<close>

theorem outputs_saturated_witness:
  "0 \<le> sint (3 :: int32_t) \<and> vsetvl_ok (vsetvl_vlmax 2)
   \<and> reads_unclobbered 32 40 48 (nat (sint (3 :: int32_t))) \<and> (0 :: nat) < nat (sint (3 :: int32_t))
   \<and> sint (accumulator (sample_heap 32) 3 (sample_heap 40)) = 90000
   \<and> saturate 90000 = 32767
   \<and> q15_axpy_ref 32 40 48 3 3 sample_heap 48 = 32767
   \<and> map_option (\<lambda>h'. h' 48) (q15_axpy_rvv (vsetvl_vlmax 2) 32 40 48 3 3 sample_heap) = Some 32767
   \<and> map_option (\<lambda>h'. h' 48) (q15_axpy_rvv_fallback 32 40 48 3 3 sample_heap) = Some 32767"
proof -
  have n: "0 \<le> sint (3 :: int32_t)" by simp
  have v: "vsetvl_ok (vsetvl_vlmax 2)" by (rule vsetvl_vlmax_ok) simp
  have r: "reads_unclobbered 32 40 48 (nat (sint (3 :: int32_t)))"
    by (auto simp: reads_unclobbered_def)
  have i: "(0 :: nat) < nat (sint (3 :: int32_t))" by simp
  have c: "sample_heap 32 = 30000" "sample_heap 40 = 20000" by (simp_all add: sample_heap_def)
  have s: "sat_q15 (accumulator 30000 3 20000) = 32767"
    by (simp add: sat_q15_def accumulator_def word_sless_alt)
  have t: "saturate 90000 = 32767" by (simp add: saturate_def)
  show ?thesis
    using n v r i t outputs_saturated [OF n v r i, of 3 sample_heap]
    by (simp add: c s)
qed

text \<open>
  Claim C6, as stated, fails: the accumulator's magnitude is not bounded by
  \<open>32768 + 32767 * 32768\<close>. With \<open>a[i] = 32767\<close> and \<open>alpha = b[i] = -32768\<close> the
  exact sum, which is also what the code computes, is 1073774591.
\<close>

theorem accumulator_bound_counterexample:
  "sint (accumulator 32767 (- 32768) (- 32768))
     = sint (32767 :: int16_t) + sint (- 32768 :: int16_t) * sint (- 32768 :: int16_t)
   \<and> \<not> \<bar>sint (32767 :: int16_t) + sint (- 32768 :: int16_t) * sint (- 32768 :: int16_t)\<bar>
         \<le> 32768 + 32767 * 32768"
  by (simp add: sint_accumulator)

text \<open>
  Claim C6, amended. For all 16-bit \<open>a[i]\<close>, \<open>b[i]\<close> and \<open>alpha\<close> the exact value of
  \<open>a[i] + alpha * b[i]\<close> has magnitude at most \<open>32767 + 32768 * 32768\<close>, which is
  below \<open>2 ^ 31\<close>, so the 32-bit computation of the scalar kernel never wraps: the
  accumulator has the exact value.
\<close>

theorem accumulator_fits_int32:
  "\<bar>sint ai + sint alpha * sint bi\<bar> \<le> 32767 + 32768 * 32768
   \<and> (32767 + 32768 * 32768 :: int) < 2 ^ 31
   \<and> sint (accumulator ai alpha bi) = sint ai + sint alpha * sint bi"
proof -
  note bs = sint16_bounds [of ai] sint16_bounds [of alpha] sint16_bounds [of bi]
  have "- 1073709056 \<le> sint alpha * sint bi" "sint alpha * sint bi \<le> 1073741824"
    using q15_product_bounds [of "sint alpha" "sint bi"] bs by simp_all
  then have "\<bar>sint ai + sint alpha * sint bi\<bar> \<le> 32767 + 32768 * 32768"
    using bs by simp
  then show ?thesis by (simp add: sint_accumulator)
qed

text \<open>
  Claim C7. In each of the four edge cases both kernels, called with \<open>n = 1\<close>, yield
  the expected value, in the RVV build and in the fallback build, so
  \<^verbatim>\<open>run_edge_tests\<close> returns 1; and for any kernel in the place of
  \<^verbatim>\<open>q15_axpy_rvv\<close> the battery returns 1 exactly when all four cases yield the
  expected value for both kernels.
\<close>

theorem edge_battery:
  assumes "vsetvl_ok vsetvl"
    and "krvv = q15_axpy_rvv vsetvl \<or> krvv = q15_axpy_rvv_fallback"
  shows "map_option (\<lambda>(y_ref, y_rvv, h'). (y_ref, y_rvv)) (edge_case krvv 32767 1 1 h)
           = Some (32767, 32767)
         \<and> map_option (\<lambda>(y_ref, y_rvv, h'). (y_ref, y_rvv)) (edge_case krvv (- 32768) 1 (- 1) h)
           = Some (- 32768, - 32768)
         \<and> map_option (\<lambda>(y_ref, y_rvv, h'). (y_ref, y_rvv)) (edge_case krvv 0 32767 32767 h)
           = Some (32767, 32767)
         \<and> map_option (\<lambda>(y_ref, y_rvv, h'). (y_ref, y_rvv)) (edge_case krvv 100 200 5 h)
           = Some (1100, 1100)
         \<and> run_edge_tests krvv h = Some 1
         \<and> (run_edge_tests k h0 = Some 1 \<longleftrightarrow>
              (\<exists>h1 h2 h3 h4.
                 edge_case k 32767 1 1 h0 = Some (32767, 32767, h1)
                 \<and> edge_case k (- 32768) 1 (- 1) h1 = Some (- 32768, - 32768, h2)
                 \<and> edge_case k 0 32767 32767 h2 = Some (32767, 32767, h3)
                 \<and> edge_case k 100 200 5 h3 = Some (1100, 1100, h4)))"
proof -
  have single: "krvv a b y 1 alpha h = Some (h(y := sat_q15 (accumulator (h a) alpha (h b))))"
    for a b y alpha h
    using assms by (auto simp: q15_axpy_rvv_single q15_axpy_rvv_fallback_def q15_axpy_ref_single)
  have c1: "\<exists>h'. edge_case krvv 32767 1 1 h = Some (32767, 32767, h')" for h
    using edge_case_result [of krvv 1 32767 1 h, OF single] by (simp add: edge_values)
  have c2: "\<exists>h'. edge_case krvv (- 32768) 1 (- 1) h = Some (- 32768, - 32768, h')" for h
    using edge_case_result [of krvv "- 1" "- 32768" 1 h, OF single] by (simp add: edge_values)
  have c3: "\<exists>h'. edge_case krvv 0 32767 32767 h = Some (32767, 32767, h')" for h
    using edge_case_result [of krvv 32767 0 32767 h, OF single] by (simp add: edge_values)
  have c4: "\<exists>h'. edge_case krvv 100 200 5 h = Some (1100, 1100, h')" for h
    using edge_case_result [of krvv 5 100 200 h, OF single] by (simp add: edge_values)
  have pass: "run_edge_tests krvv h = Some 1"
    unfolding run_edge_tests_iff using c1 c2 c3 c4 by metis
  show ?thesis
    using c1 [of h] c2 [of h] c3 [of h] c4 [of h] pass run_edge_tests_iff [of k h0]
    by (intro conjI) auto
qed

text \<open>
  C7 for the RVV build with chunks of at most 8 elements and for the fallback build.
\<close>

theorem edge_battery_witness:
  "vsetvl_ok (vsetvl_vlmax 8)
   \<and> run_edge_tests (q15_axpy_rvv (vsetvl_vlmax 8)) sample_heap = Some 1
   \<and> run_edge_tests q15_axpy_rvv_fallback sample_heap = Some 1
   \<and> map_option (\<lambda>(y_ref, y_rvv, h'). (y_ref, y_rvv))
        (edge_case (q15_axpy_rvv (vsetvl_vlmax 8)) 0 32767 32767 sample_heap) = Some (32767, 32767)"
proof -
  have v: "vsetvl_ok (vsetvl_vlmax 8)" by (rule vsetvl_vlmax_ok) simp
  have k1: "q15_axpy_rvv (vsetvl_vlmax 8) = q15_axpy_rvv (vsetvl_vlmax 8)
            \<or> q15_axpy_rvv (vsetvl_vlmax 8) = q15_axpy_rvv_fallback" by simp
  have k2: "q15_axpy_rvv_fallback = q15_axpy_rvv (vsetvl_vlmax 8)
            \<or> q15_axpy_rvv_fallback = q15_axpy_rvv_fallback" by simp
  show ?thesis
    using v edge_battery [OF v k1, of sample_heap] edge_battery [OF v k2, of sample_heap]
    by simp
qed

text \<open>
  Claim C8. With \<open>n = 0\<close> the scalar kernel and both builds of the RVV kernel return
  and leave every cell of the store as it was.
\<close>

theorem kernels_noop_on_zero_length:
  "q15_axpy_ref a b y 0 alpha h = h
   \<and> q15_axpy_rvv vsetvl a b y 0 alpha h = Some h
   \<and> q15_axpy_rvv_fallback a b y 0 alpha h = Some h"
proof -
  have "q15_axpy_ref a b y 0 alpha h = h"
    unfolding q15_axpy_ref_def by (subst q15_axpy_ref_loop.simps) simp
  moreover have "q15_axpy_rvv vsetvl a b y 0 alpha h = Some h"
    unfolding q15_axpy_rvv_def by (subst q15_axpy_rvv_loop.simps) simp
  ultimately show ?thesis by (simp add: q15_axpy_rvv_fallback_def)
qed

text \<open>
  Claim C9. With a negative \<open>n\<close> the scalar kernel returns without a write, as it
  does for \<open>n = 0\<close>.
\<close>

theorem q15_axpy_ref_negative_length:
  assumes "sint n < 0"
  shows "q15_axpy_ref a b y n alpha h = h"
  unfolding q15_axpy_ref_def using assms by (subst q15_axpy_ref_loop.simps) simp

text \<open>
  C9 at \<open>n = -1\<close> and at the least \<^verbatim>\<open>int\<close>.
\<close>

theorem q15_axpy_ref_negative_length_witness:
  "sint (- 1 :: int32_t) < 0 \<and> q15_axpy_ref 32 40 48 (- 1) 3 sample_heap = sample_heap
   \<and> sint (- 2147483648 :: int32_t) < 0 \<and> q15_axpy_ref 32 40 48 (- 2147483648) 3 sample_heap
       = sample_heap"
proof -
  have a: "sint (- 1 :: int32_t) < 0" and b: "sint (- 2147483648 :: int32_t) < 0" by simp_all
  show ?thesis
    using a b q15_axpy_ref_negative_length [OF a] q15_axpy_ref_negative_length [OF b] by simp
qed

text \<open>
  Claim C10. \<^verbatim>\<open>arrays_match\<close> is symmetric in its two sequences: the flag and the
  maximum are the same for \<open>(x, y)\<close> and \<open>(y, x)\<close>, for every \<open>n\<close>.
\<close>

theorem arrays_match_symmetric:
  "arrays_match h x y n = arrays_match h y x n"
  unfolding arrays_match_def by (rule arrays_match_loop_commute)

end
